theory Spec2Isabelle
  imports Main "HOL-Library.Sublist" "HOL-Library.Code_Target_Nat"
begin

section \<open>Characters and strings\<close>

text \<open>
  A Python string is a sequence of Unicode code points, here natural numbers; a literal of
  the script is written \<open>py ''...''\<close>.
\<close>

type_synonym pystr = "nat list"

definition py :: "string \<Rightarrow> pystr" where
  "py s = map of_char s"

text \<open>
  The whitespace of \<open>str.strip\<close>, \<open>str.isspace\<close> and the class \<open>\s\<close> of \<open>re\<close> on strings:
  the 29 code points that Python takes as whitespace.
\<close>

definition is_space :: "nat \<Rightarrow> bool" where
  "is_space c =
     ((0x09 \<le> c \<and> c \<le> 0x0D) \<or> (0x1C \<le> c \<and> c \<le> 0x20) \<or> c = 0x85 \<or> c = 0xA0 \<or>
      c = 0x1680 \<or> (0x2000 \<le> c \<and> c \<le> 0x200A) \<or> c = 0x2028 \<or> c = 0x2029 \<or>
      c = 0x202F \<or> c = 0x205F \<or> c = 0x3000)"

text \<open>The ranges \<open>A-Z\<close> and \<open>a-z\<close> of a character class.\<close>

definition is_upper :: "nat \<Rightarrow> bool" where
  "is_upper c = (0x41 \<le> c \<and> c \<le> 0x5A)"

definition is_lower :: "nat \<Rightarrow> bool" where
  "is_lower c = (0x61 \<le> c \<and> c \<le> 0x7A)"

definition is_alpha :: "nat \<Rightarrow> bool" where
  "is_alpha c = (is_upper c \<or> is_lower c)"

text \<open>
  The rest of what the script takes from Python's Unicode database is not part of the
  repository and is a parameter of the model: which code points are alphanumeric
  (\<open>str.isalnum\<close>, behind \<open>\w\<close> and \<open>\b\<close>), the upper-case mapping of a code point
  (\<open>str.upper\<close> maps each code point on its own, to one or more code points), and which
  code points are printable (\<open>str.isprintable\<close>, behind \<open>repr\<close>).
\<close>

record unicode =
  isalnum :: "nat \<Rightarrow> bool"
  to_upper :: "nat \<Rightarrow> nat list"
  isprintable :: "nat \<Rightarrow> bool"

definition is_word :: "unicode \<Rightarrow> nat \<Rightarrow> bool" where
  "is_word U c = (isalnum U c \<or> c = 0x5F)"

definition upper :: "unicode \<Rightarrow> pystr \<Rightarrow> pystr" where
  "upper U s = concat (map (to_upper U) s)"

definition lstrip :: "pystr \<Rightarrow> pystr" where
  "lstrip s = dropWhile is_space s"

definition rstrip :: "pystr \<Rightarrow> pystr" where
  "rstrip s = rev (dropWhile is_space (rev s))"

definition strip :: "pystr \<Rightarrow> pystr" where
  "strip s = rstrip (lstrip s)"

text \<open>\<open>s.split(",")\<close>: the segments between commas; never the empty list.\<close>

fun split_comma :: "pystr \<Rightarrow> pystr list" where
  "split_comma [] = [[]]"
| "split_comma (c # cs) =
     (if c = 0x2C then [] # split_comma cs
      else (case split_comma cs of [] \<Rightarrow> [[c]] | seg # segs \<Rightarrow> (c # seg) # segs))"

text \<open>\<open>sep.join(xs)\<close>.\<close>

fun join :: "pystr \<Rightarrow> pystr list \<Rightarrow> pystr" where
  "join sep [] = []"
| "join sep [x] = x"
| "join sep (x # y # ys) = x @ sep @ join sep (y # ys)"

text \<open>Decimal digits of a natural number, as \<open>str\<close> prints them.\<close>

fun str_nat :: "nat \<Rightarrow> pystr" where
  "str_nat n = (if n < 10 then [0x30 + n] else str_nat (n div 10) @ [0x30 + n mod 10])"

declare str_nat.simps [simp del]

definition str_int :: "int \<Rightarrow> pystr" where
  "str_int i = (if i < 0 then 0x2D # str_nat (nat (- i)) else str_nat (nat i))"

section \<open>Values of the provider's records\<close>

text \<open>
  A seller record is a loosely typed mapping: its values are \<open>None\<close>, booleans, integers,
  strings, lists and dictionaries (floats are left out). A dictionary is an association
  list in insertion order; \<open>d.get(k)\<close> is \<open>map_of d k\<close>.
\<close>

datatype pyval =
    VNone
  | VBool bool
  | VInt int
  | VStr pystr
  | VList "pyval list"
  | VDict "(pystr \<times> pyval) list"

type_synonym pydict = "(pystr \<times> pyval) list"

text \<open>Truthiness, as \<open>if v\<close> and \<open>v or ""\<close> test it.\<close>

fun truthy :: "pyval \<Rightarrow> bool" where
  "truthy VNone = False"
| "truthy (VBool b) = b"
| "truthy (VInt i) = (i \<noteq> 0)"
| "truthy (VStr s) = (s \<noteq> [])"
| "truthy (VList xs) = (xs \<noteq> [])"
| "truthy (VDict kvs) = (kvs \<noteq> [])"

text \<open>\<open>type(v).__name__\<close>.\<close>

fun type_name :: "pyval \<Rightarrow> pystr" where
  "type_name VNone = py ''NoneType''"
| "type_name (VBool b) = py ''bool''"
| "type_name (VInt i) = py ''int''"
| "type_name (VStr s) = py ''str''"
| "type_name (VList xs) = py ''list''"
| "type_name (VDict kvs) = py ''dict''"

text \<open>
  \<open>repr\<close> of a string: the quote is chosen, and the quote, the backslash, the control
  characters and the code points that are not printable are escaped.
\<close>

definition hex_digit :: "nat \<Rightarrow> nat" where
  "hex_digit n = (if n < 10 then 0x30 + n else 0x57 + n)"

fun hex_fixed :: "nat \<Rightarrow> nat \<Rightarrow> pystr" where
  "hex_fixed 0 n = []"
| "hex_fixed (Suc w) n = hex_fixed w (n div 16) @ [hex_digit (n mod 16)]"

definition repr_char :: "unicode \<Rightarrow> nat \<Rightarrow> nat \<Rightarrow> pystr" where
  "repr_char U q c =
     (if c = q \<or> c = 0x5C then [0x5C, c]
      else if c = 0x09 then [0x5C, 0x74]
      else if c = 0x0A then [0x5C, 0x6E]
      else if c = 0x0D then [0x5C, 0x72]
      else if c < 0x20 \<or> c = 0x7F then [0x5C, 0x78] @ hex_fixed 2 c
      else if c < 0x7F then [c]
      else if isprintable U c then [c]
      else if c \<le> 0xFF then [0x5C, 0x78] @ hex_fixed 2 c
      else if c \<le> 0xFFFF then [0x5C, 0x75] @ hex_fixed 4 c
      else [0x5C, 0x55] @ hex_fixed 8 c)"

definition repr_str :: "unicode \<Rightarrow> pystr \<Rightarrow> pystr" where
  "repr_str U s =
     (let q = (if 0x27 \<in> set s \<and> 0x22 \<notin> set s then 0x22 else 0x27)
      in [q] @ concat (map (repr_char U q) s) @ [q])"

primrec py_repr :: "unicode \<Rightarrow> pyval \<Rightarrow> pystr" where
  "py_repr U VNone = py ''None''"
| "py_repr U (VBool b) = (if b then py ''True'' else py ''False'')"
| "py_repr U (VInt i) = str_int i"
| "py_repr U (VStr s) = repr_str U s"
| "py_repr U (VList xs) = py ''['' @ join (py '', '') (map (py_repr U) xs) @ py '']''"
| "py_repr U (VDict kvs) =
     py ''{'' @ join (py '', '') (map (\<lambda>kv. repr_str U (fst kv) @ py '': '' @ snd kv)
                                 (map (map_prod id (py_repr U)) kvs)) @ py ''}''"

text \<open>\<open>str(v)\<close>: a string is itself, anything else is its \<open>repr\<close>.\<close>

definition py_str :: "unicode \<Rightarrow> pyval \<Rightarrow> pystr" where
  "py_str U v = (case v of VStr s \<Rightarrow> s | _ \<Rightarrow> py_repr U v)"

section \<open>Regular expressions\<close>

text \<open>
  The fragment of \<open>re\<close> the script uses. A configuration is the rest of the input
  together with whether the character just before it is a word character, which is what
  \<open>\b\<close> looks at. \<open>ends\<close> lists the configurations a match of the expression can stop
  in; \<open>re.search\<close> and \<open>re.fullmatch\<close> return a match exactly when one exists.
\<close>

datatype regex =
    Eps
  | Lit nat
  | Space
  | Letter
  | WordB
  | Seq regex regex
  | Alt regex regex
  | Star regex
  | Plus regex
  | Rep nat regex

type_synonym cfg = "bool \<times> pystr"

text \<open>
  A literal character of a pattern against a character of the input. Under \<open>re.I\<close> an
  ASCII letter also matches its other case, and the letters k, i and s match the Kelvin
  sign, the dotted capital and dotless small i, and the long s. The script's patterns have
  ASCII literals only.
\<close>

definition lower_ascii :: "nat \<Rightarrow> nat" where
  "lower_ascii c = (if is_upper c then c + 32 else c)"

definition lit_eq :: "bool \<Rightarrow> nat \<Rightarrow> nat \<Rightarrow> bool" where
  "lit_eq ignorecase p c =
     (c = p \<or>
      (ignorecase \<and> is_alpha p \<and>
         (lower_ascii c = lower_ascii p \<or>
          (lower_ascii p = 0x6B \<and> c = 0x212A) \<or>
          (lower_ascii p = 0x69 \<and> (c = 0x130 \<or> c = 0x131)) \<or>
          (lower_ascii p = 0x73 \<and> c = 0x17F))))"

definition eat :: "unicode \<Rightarrow> (nat \<Rightarrow> bool) \<Rightarrow> cfg \<Rightarrow> cfg list" where
  "eat U P cf = (case snd cf of [] \<Rightarrow> [] | c # cs \<Rightarrow> if P c then [(is_word U c, cs)] else [])"

definition at_boundary :: "unicode \<Rightarrow> cfg \<Rightarrow> bool" where
  "at_boundary U cf = (fst cf \<noteq> (case snd cf of [] \<Rightarrow> False | c # cs \<Rightarrow> is_word U c))"

fun repeat :: "nat \<Rightarrow> (cfg \<Rightarrow> cfg list) \<Rightarrow> cfg \<Rightarrow> cfg list" where
  "repeat 0 f cf = [cf]"
| "repeat (Suc n) f cf =
     cf # concat (map (repeat n f) (filter (\<lambda>cf'. length (snd cf') < length (snd cf)) (f cf)))"

fun times :: "nat \<Rightarrow> (cfg \<Rightarrow> cfg list) \<Rightarrow> cfg \<Rightarrow> cfg list" where
  "times 0 f cf = [cf]"
| "times (Suc n) f cf = concat (map (times n f) (f cf))"

primrec ends :: "unicode \<Rightarrow> bool \<Rightarrow> regex \<Rightarrow> cfg \<Rightarrow> cfg list" where
  "ends U ic Eps = (\<lambda>cf. [cf])"
| "ends U ic (Lit p) = eat U (lit_eq ic p)"
| "ends U ic Space = eat U is_space"
| "ends U ic Letter = eat U is_alpha"
| "ends U ic WordB = (\<lambda>cf. if at_boundary U cf then [cf] else [])"
| "ends U ic (Seq a b) = (\<lambda>cf. concat (map (ends U ic b) (ends U ic a cf)))"
| "ends U ic (Alt a b) = (\<lambda>cf. ends U ic a cf @ ends U ic b cf)"
| "ends U ic (Star a) = (\<lambda>cf. repeat (length (snd cf)) (ends U ic a) cf)"
| "ends U ic (Plus a) =
     (\<lambda>cf. concat (map (\<lambda>cf'. repeat (length (snd cf')) (ends U ic a) cf') (ends U ic a cf)))"
| "ends U ic (Rep n a) = times n (ends U ic a)"

fun search_from :: "unicode \<Rightarrow> bool \<Rightarrow> regex \<Rightarrow> bool \<Rightarrow> pystr \<Rightarrow> bool" where
  "search_from U ic r w [] = (ends U ic r (w, []) \<noteq> [])"
| "search_from U ic r w (c # cs) =
     (ends U ic r (w, c # cs) \<noteq> [] \<or> search_from U ic r (is_word U c) cs)"

definition re_search :: "unicode \<Rightarrow> bool \<Rightarrow> regex \<Rightarrow> pystr \<Rightarrow> bool" where
  "re_search U ic r s = search_from U ic r False s"

definition re_fullmatch :: "unicode \<Rightarrow> bool \<Rightarrow> regex \<Rightarrow> pystr \<Rightarrow> bool" where
  "re_fullmatch U ic r s = ([] \<in> set (map snd (ends U ic r (False, s))))"

fun lits :: "pystr \<Rightarrow> regex" where
  "lits [] = Eps"
| "lits (c # cs) = Seq (Lit c) (lits cs)"

text \<open>\<^verbatim>\<open>[A-Za-z]{2}\<close>\<close>

definition alpha2 :: regex where
  "alpha2 = Rep 2 Letter"

text \<open>\<^verbatim>\<open>\s*[A-Za-z]{2}\s*\<close>\<close>

definition padded_alpha2 :: regex where
  "padded_alpha2 = Seq (Star Space) (Seq (Rep 2 Letter) (Star Space))"

text \<open>\<^verbatim>\<open>(United\s+Kingdom|Great\s+Britain|\bUK\b|\bGB\b)\<close>, used with \<open>re.I\<close>\<close>

definition ukgb :: regex where
  "ukgb =
     Alt (Seq (lits (py ''United'')) (Seq (Plus Space) (lits (py ''Kingdom''))))
    (Alt (Seq (lits (py ''Great'')) (Seq (Plus Space) (lits (py ''Britain''))))
    (Alt (Seq WordB (Seq (lits (py ''UK'')) WordB))
         (Seq WordB (Seq (lits (py ''GB'')) WordB))))"

section \<open>Country inference\<close>

definition direct_keys :: "pystr list" where
  "direct_keys = [py ''establishedCountry'', py ''countryCode'', py ''country'']"

definition candidate_keys :: "pystr list" where
  "candidate_keys =
     [py ''businessAddress'', py ''registrationAddress'', py ''address'',
      py ''storefrontAddress'', py ''sellerAddress'']"

definition extra_keys :: "pystr list" where
  "extra_keys = [py ''country'', py ''countryCode'', py ''establishedCountry'']"

text \<open>
  The loop of lines 24-27, and again of lines 51-54: the first key, in the order given,
  whose value is a string with \<open>v.strip()\<close> non-empty decides.
\<close>

fun first_country :: "unicode \<Rightarrow> pystr list \<Rightarrow> pydict \<Rightarrow> pystr option" where
  "first_country U [] d = None"
| "first_country U (k # ks) d =
     (case map_of d k of
        Some (VStr v) \<Rightarrow>
          if strip v \<noteq> [] then Some (upper U (strip v)) else first_country U ks d
      | _ \<Rightarrow> first_country U ks d)"

text \<open>The body of the loop of lines 34-47 on one value: a determination, or none.\<close>

definition address_country :: "unicode \<Rightarrow> pyval \<Rightarrow> pystr option" where
  "address_country U v =
     (case v of
        VList xs \<Rightarrow>
          if xs \<noteq> [] then
            (let lst = strip (py_str U (last xs)) in
             if re_fullmatch U False alpha2 lst then Some (upper U lst)
             else if re_search U True ukgb lst then Some (py ''GB'')
             else None)
          else None
      | VStr s \<Rightarrow>
          if strip s \<noteq> [] then
            (let tail = last (split_comma (strip s)) in
             if re_fullmatch U False padded_alpha2 tail then Some (upper U (strip tail))
             else if re_search U True ukgb s then Some (py ''GB'')
             else None)
          else None
      | _ \<Rightarrow> None)"

fun scan_addresses :: "unicode \<Rightarrow> pystr list \<Rightarrow> pydict \<Rightarrow> pystr option" where
  "scan_addresses U [] d = None"
| "scan_addresses U (k # ks) d =
     (case map_of d k of
        None \<Rightarrow> scan_addresses U ks d
      | Some v \<Rightarrow>
          (case address_country U v of
             Some c \<Rightarrow> Some c
           | None \<Rightarrow> scan_addresses U ks d))"

definition extract_country_from_seller :: "unicode \<Rightarrow> pydict \<Rightarrow> pystr option" where
  "extract_country_from_seller U seller_obj =
     (case first_country U direct_keys seller_obj of
        Some c \<Rightarrow> Some c
      | None \<Rightarrow>
          (case scan_addresses U candidate_keys seller_obj of
             Some c \<Rightarrow> Some c
           | None \<Rightarrow>
               (case map_of seller_obj (py ''extra'') of
                  Some (VDict extra) \<Rightarrow> first_country U extra_keys extra
                | _ \<Rightarrow> None)))"

section \<open>Output rows and URL builders\<close>

record row =
  sellerId :: pystr
  sellerName :: pystr
  establishedCountry :: pystr
  amazonUrl :: pystr
  keepaUrl :: pystr

definition amazon_seller_url :: "pystr \<Rightarrow> pystr \<Rightarrow> pystr" where
  "amazon_seller_url seller_id domain =
     (let tld = (case map_of [(py ''DE'', py ''de''), (py ''GB'', py ''co.uk''),
                              (py ''US'', py ''com'')] domain of
                   Some t \<Rightarrow> t
                 | None \<Rightarrow> py ''de'')
      in py ''https://www.amazon.'' @ tld @ py ''/sp?seller='' @ seller_id)"

definition keepa_seller_url :: "pystr \<Rightarrow> pystr \<Rightarrow> pystr" where
  "keepa_seller_url seller_id domain =
     py ''https://keepa.com/#!seller/'' @ domain @ py ''/'' @ seller_id"

text \<open>\<open>str(s.get("sellerName") or "").strip()\<close>\<close>

definition seller_name :: "unicode \<Rightarrow> pydict \<Rightarrow> pystr" where
  "seller_name U s =
     strip (py_str U (case map_of s (py ''sellerName'') of
                        None \<Rightarrow> VStr []
                      | Some v \<Rightarrow> if truthy v then v else VStr []))"

definition make_row :: "unicode \<Rightarrow> pystr \<Rightarrow> pydict \<Rightarrow> pystr \<Rightarrow> row" where
  "make_row U sid s country =
     \<lparr>sellerId = sid,
      sellerName = seller_name U s,
      establishedCountry = country,
      amazonUrl = amazon_seller_url sid (py ''DE''),
      keepaUrl = keepa_seller_url sid (py ''DE'')\<rparr>"

section \<open>The batch pipeline\<close>

text \<open>
  What the run does to the outside is a trace of events: a call of the provider's lookup
  with a batch, a line printed, a sleep, and the rows written to the CSV file.
\<close>

datatype event =
    Call "pystr list"
  | Print pystr
  | Sleep nat
  | WriteCsv "row list"

record state =
  rows :: "row list"
  out :: "event list"

definition init :: state where
  "init = \<lparr>rows = [], out = []\<rparr>"

text \<open>The batches the lookup was called with, in order.\<close>

fun calls :: "event list \<Rightarrow> pystr list list" where
  "calls [] = []"
| "calls (Call b # evs) = b # calls evs"
| "calls (e # evs) = calls evs"

text \<open>
  The provider's lookup is not part of the script. Its \<open>n\<close>-th call (from 0) on a batch
  either raises an exception, given by its message, or returns a value.
\<close>

type_synonym lookup = "nat \<Rightarrow> pystr list \<Rightarrow> pystr + pyval"

definition BATCH :: nat where
  "BATCH = 100"

text \<open>The loop of lines 85-97 over the identifiers of a batch, on a dictionary \<open>data\<close>.\<close>

fun batch_rows :: "unicode \<Rightarrow> pydict \<Rightarrow> pystr list \<Rightarrow> row list" where
  "batch_rows U data [] = []"
| "batch_rows U data (sid # sids) =
     (case map_of data sid of
        Some (VDict s) \<Rightarrow>
          (case extract_country_from_seller U s of
             Some country \<Rightarrow>
               if country = py ''GB'' \<or> country = py ''UK''
               then make_row U sid s country # batch_rows U data sids
               else batch_rows U data sids
           | None \<Rightarrow> batch_rows U data sids)
      | _ \<Rightarrow> batch_rows U data sids)"

definition warn :: "nat \<Rightarrow> pystr \<Rightarrow> pystr" where
  "warn n e = py ''[warn] batch '' @ str_nat n @ py '' failed: '' @ e"

text \<open>The handler of lines 98-100.\<close>

definition failed :: "nat \<Rightarrow> pystr \<Rightarrow> state \<Rightarrow> state" where
  "failed i e st = st\<lparr>out := out st @ [Print (warn (i div BATCH + 1) e), Sleep 2]\<rparr>"

text \<open>\<open>data.get\<close> on a value that is not a dictionary raises \<open>AttributeError\<close>.\<close>

definition attribute_error :: "pyval \<Rightarrow> pystr" where
  "attribute_error v =
     [0x27] @ type_name v @ [0x27] @ py '' object has no attribute '' @ [0x27] @ py ''get'' @ [0x27]"

text \<open>One iteration of the loop of line 81: the \<open>try\<close> block and its handler.\<close>

definition run_batch :: "unicode \<Rightarrow> lookup \<Rightarrow> nat \<Rightarrow> pystr list \<Rightarrow> state \<Rightarrow> state" where
  "run_batch U api i batch st =
     (let st1 = st\<lparr>out := out st @ [Call batch]\<rparr> in
      case api (i div BATCH) batch of
        Inl e \<Rightarrow> failed i e st1
      | Inr (VDict data) \<Rightarrow> st1\<lparr>rows := rows st1 @ batch_rows U data batch\<rparr>
      | Inr v \<Rightarrow> if batch = [] then st1 else failed i (attribute_error v) st1)"

function batches :: "unicode \<Rightarrow> lookup \<Rightarrow> pystr list \<Rightarrow> nat \<Rightarrow> state \<Rightarrow> state" where
  "batches U api seller_ids i st =
     (if i < length seller_ids
      then batches U api seller_ids (i + BATCH)
             (run_batch U api i (take BATCH (drop i seller_ids)) st)
      else st)"
  by pat_completeness auto
termination
  by (relation "measure (\<lambda>(U, api, seller_ids, i, st). length seller_ids - i)")
     (auto simp: BATCH_def)

declare batches.simps [simp del]

section \<open>The input loader and the run\<close>

text \<open>
  The input file is missing or has a text. Iterating over a file opened in text mode
  gives its lines, each ending in a line feed (the last one possibly not), with
  \<open>\r\n\<close> and \<open>\r\<close> read as a line feed.
\<close>

datatype input_file = Missing | Content pystr

datatype fatal = SystemExit pystr

fun py_lines :: "pystr \<Rightarrow> pystr list" where
  "py_lines [] = []"
| "py_lines [c] = (if c = 0x0A \<or> c = 0x0D then [[0x0A]] else [[c]])"
| "py_lines (c # d # cs) =
     (if c = 0x0D \<and> d = 0x0A then [0x0A] # py_lines cs
      else if c = 0x0A \<or> c = 0x0D then [0x0A] # py_lines (d # cs)
      else (case py_lines (d # cs) of [] \<Rightarrow> [[c]] | l # ls \<Rightarrow> (c # l) # ls))"

definition INPUT_FILE :: pystr where
  "INPUT_FILE = py ''seller_ids.txt''"

definition OUTPUT_FILE :: pystr where
  "OUTPUT_FILE = py ''gb_sellers_in_de.csv''"

text \<open>Lines 66-73.\<close>

definition load_seller_ids :: "input_file \<Rightarrow> fatal + pystr list" where
  "load_seller_ids f =
     (case f of
        Missing \<Rightarrow>
          Inl (SystemExit (py ''Missing '' @ INPUT_FILE @
                 py ''. Create it with one seller ID per line.''))
      | Content text \<Rightarrow>
          (let seller_ids = map strip (filter (\<lambda>line. strip line \<noteq> []) (py_lines text)) in
           if seller_ids = []
           then Inl (SystemExit (INPUT_FILE @ py '' has no seller IDs. Add at least one.''))
           else Inr seller_ids))"

text \<open>What line 111 prints.\<close>

definition done_line :: "nat \<Rightarrow> pystr" where
  "done_line n = py ''Done. Wrote '' @ str_nat n @ py '' GB/UK sellers to '' @ OUTPUT_FILE"

definition main :: "unicode \<Rightarrow> input_file \<Rightarrow> lookup \<Rightarrow> fatal + state" where
  "main U f api =
     (case load_seller_ids f of
        Inl e \<Rightarrow> Inl e
      | Inr seller_ids \<Rightarrow>
          (let st = batches U api seller_ids 0 init in
           Inr (st\<lparr>out := out st @ [WriteCsv (rows st), Print (done_line (length (rows st)))]\<rparr>)))"

section \<open>The claims' own wording, for comparison\<close>

text \<open>A blank line: nothing but whitespace.\<close>

definition blank :: "pystr \<Rightarrow> bool" where
  "blank l = list_all is_space l"

text \<open>
  The seller name as C7 words it: the trimmed value of the field, and the empty string
  when the field is absent or is not a string.
\<close>

definition claimed_seller_name :: "pydict \<Rightarrow> pystr" where
  "claimed_seller_name s =
     (case map_of s (py ''sellerName'') of Some (VStr v) \<Rightarrow> strip v | _ \<Rightarrow> [])"

text \<open>
  The direct-field rule as C5 and C6 word it: the first key, in the order given, that holds
  a non-empty string decides, with that string trimmed and upper-cased.
\<close>

fun claimed_first_country :: "unicode \<Rightarrow> pystr list \<Rightarrow> pydict \<Rightarrow> pystr option" where
  "claimed_first_country U [] d = None"
| "claimed_first_country U (k # ks) d =
     (case map_of d k of
        Some (VStr v) \<Rightarrow>
          if v \<noteq> [] then Some (upper U (strip v)) else claimed_first_country U ks d
      | _ \<Rightarrow> claimed_first_country U ks d)"

section \<open>Example inputs\<close>

text \<open>
  For the examples, the three tables as CPython 3.11 has them on the code points below
  256 (above, nothing is alphanumeric or printable and upper-casing changes nothing). All
  strings of the examples are ASCII.
\<close>

definition latin1 :: unicode where
  "latin1 =
     \<lparr>isalnum = (\<lambda>c. (0x30 \<le> c \<and> c \<le> 0x39) \<or> (0x41 \<le> c \<and> c \<le> 0x5A) \<or>
                     (0x61 \<le> c \<and> c \<le> 0x7A) \<or> c = 0xAA \<or> c = 0xB2 \<or> c = 0xB3 \<or>
                     c = 0xB5 \<or> c = 0xB9 \<or> c = 0xBA \<or> (0xBC \<le> c \<and> c \<le> 0xBE) \<or>
                     (0xC0 \<le> c \<and> c \<le> 0xD6) \<or> (0xD8 \<le> c \<and> c \<le> 0xF6) \<or>
                     (0xF8 \<le> c \<and> c \<le> 0xFF)),
      to_upper = (\<lambda>c. if (0x61 \<le> c \<and> c \<le> 0x7A) \<or> (0xE0 \<le> c \<and> c \<le> 0xF6) \<or>
                         (0xF8 \<le> c \<and> c \<le> 0xFE)
                      then [c - 32]
                      else if c = 0xB5 then [0x39C]
                      else if c = 0xDF then [0x53, 0x53]
                      else if c = 0xFF then [0x178]
                      else [c]),
      isprintable = (\<lambda>c. (0x20 \<le> c \<and> c \<le> 0x7E) \<or> (0xA1 \<le> c \<and> c \<le> 0xAC) \<or>
                         (0xAE \<le> c \<and> c \<le> 0xFF))\<rparr>"

text \<open>A lookup whose second call raises, and one that always answers.\<close>

definition flaky_lookup :: lookup where
  "flaky_lookup n b =
     (if n = 1 then Inl (py ''timeout'')
      else Inr (VDict [(py ''S1'', VDict [(py ''country'', VStr (py ''uk''))])]))"

definition steady_lookup :: lookup where
  "steady_lookup n b =
     Inr (VDict [(py ''S1'', VDict [(py ''country'', VStr (py ''uk''))]),
                 (py ''S0'', VDict [(py ''country'', VStr (py ''de''))])])"

text \<open>Lookups answering with one record for \<open>A1\<close>: a padded name, and a numeric name.\<close>

definition named_lookup :: lookup where
  "named_lookup n b =
     Inr (VDict [(py ''A1'', VDict [(py ''sellerName'', VStr (py ''  Acme Ltd '')),
                                    (py ''country'', VStr (py ''gb''))])])"

definition numeric_name_lookup :: lookup where
  "numeric_name_lookup n b =
     Inr (VDict [(py ''A1'', VDict [(py ''sellerName'', VInt 123),
                                    (py ''country'', VStr (py ''GB''))])])"

section \<open>Properties of strings\<close>

lemma lstrip_not_space: "lstrip s \<noteq> [] \<Longrightarrow> \<not> is_space (hd (lstrip s))"
  unfolding lstrip_def by (rule hd_dropWhile)

lemma rstrip_not_space: "rstrip s \<noteq> [] \<Longrightarrow> \<not> is_space (last (rstrip s))"
  unfolding rstrip_def using hd_dropWhile[of is_space "rev s"] by (simp add: last_rev)

lemma rstrip_hd: "rstrip s \<noteq> [] \<Longrightarrow> hd (rstrip s) = hd s"
  unfolding rstrip_def
  by (metis append_Nil2 hd_append2 rev.simps(1) rev_append rev_rev_ident takeWhile_dropWhile_id)

lemma strip_not_space:
  assumes "strip s \<noteq> []"
  shows "\<not> is_space (hd (strip s)) \<and> \<not> is_space (last (strip s))"
proof -
  from assms have ne: "rstrip (lstrip s) \<noteq> []" by (simp add: strip_def)
  then have "lstrip s \<noteq> []" by (auto simp: rstrip_def)
  then have "\<not> is_space (hd (lstrip s))" by (rule lstrip_not_space)
  then have "\<not> is_space (hd (strip s))" using rstrip_hd[OF ne] by (simp add: strip_def)
  moreover have "\<not> is_space (last (strip s))"
    using rstrip_not_space[OF ne] by (simp add: strip_def)
  ultimately show ?thesis by simp
qed

lemma lstrip_id: "s = [] \<or> \<not> is_space (hd s) \<Longrightarrow> lstrip s = s"
  by (cases s) (auto simp: lstrip_def)

lemma rstrip_id: "s = [] \<or> \<not> is_space (last s) \<Longrightarrow> rstrip s = s"
  by (cases s rule: rev_cases) (auto simp: rstrip_def)

lemma strip_id: "s = [] \<or> (\<not> is_space (hd s) \<and> \<not> is_space (last s)) \<Longrightarrow> strip s = s"
  by (auto simp: strip_def lstrip_id rstrip_id)

lemma strip_idem: "strip (strip s) = strip s"
  using strip_not_space[of s] by (intro strip_id) blast

lemma strip_decomp:
  "\<exists>pre post. s = pre @ strip s @ post \<and> (\<forall>c\<in>set pre. is_space c) \<and> (\<forall>c\<in>set post. is_space c)"
proof -
  let ?pre = "takeWhile is_space s"
  let ?m = "dropWhile is_space s"
  let ?post = "rev (takeWhile is_space (rev ?m))"
  have "?m = strip s @ ?post"
    unfolding strip_def rstrip_def lstrip_def
    by (metis rev_append rev_rev_ident takeWhile_dropWhile_id)
  then have "s = ?pre @ strip s @ ?post"
    by (metis takeWhile_dropWhile_id)
  moreover have "\<forall>c\<in>set ?pre. is_space c" by (auto dest: set_takeWhileD)
  moreover have "\<forall>c\<in>set ?post. is_space c" by (auto dest: set_takeWhileD)
  ultimately show ?thesis by blast
qed

lemma strip_Nil_iff: "strip s = [] \<longleftrightarrow> (\<forall>c\<in>set s. is_space c)"
proof
  assume "strip s = []"
  with strip_decomp[of s] show "\<forall>c\<in>set s. is_space c"
    by (metis Un_iff append_Nil set_append)
next
  assume "\<forall>c\<in>set s. is_space c"
  then show "strip s = []"
    unfolding strip_def rstrip_def lstrip_def by (auto dest: set_dropWhileD)
qed

lemma strip_subset: "set (strip s) \<subseteq> set s"
  using strip_decomp[of s] by (metis Un_iff set_append subsetI)

section \<open>Properties of the batch pipeline\<close>

lemma batch_rows_origin:
  "r \<in> set (batch_rows U data batch) \<Longrightarrow>
     sellerId r \<in> set batch \<and>
     (\<exists>s. map_of data (sellerId r) = Some (VDict s) \<and>
          extract_country_from_seller U s = Some (establishedCountry r) \<and>
          (establishedCountry r = py ''GB'' \<or> establishedCountry r = py ''UK'') \<and>
          r = make_row U (sellerId r) s (establishedCountry r))"
proof (induction batch)
  case Nil
  then show ?case by simp
next
  case (Cons sid sids)
  show ?case
  proof (cases "r \<in> set (batch_rows U data sids)")
    case True
    with Cons.IH show ?thesis by auto
  next
    case False
    with Cons.prems obtain s country where
      "map_of data sid = Some (VDict s)" "extract_country_from_seller U s = Some country"
      "country = py ''GB'' \<or> country = py ''UK''" "r = make_row U sid s country"
      by (auto split: option.splits pyval.splits if_splits)
    then show ?thesis by (auto simp: make_row_def)
  qed
qed

lemma batch_rows_subseq: "subseq (map sellerId (batch_rows U data batch)) batch"
  by (induction batch) (auto simp: make_row_def split: option.splits pyval.splits)

lemma run_batch_rows:
  "rows (run_batch U api i b st) = rows st \<or>
   (\<exists>data. api (i div BATCH) b = Inr (VDict data) \<and>
      rows (run_batch U api i b st) = rows st @ batch_rows U data b)"
  by (auto simp: run_batch_def failed_def Let_def split: sum.splits pyval.splits)

lemma batches_unfold:
  "i < length ids \<Longrightarrow>
     batches U api ids i st =
       batches U api ids (i + BATCH) (run_batch U api i (take BATCH (drop i ids)) st)"
  by (subst batches.simps) simp

lemma batches_done: "\<not> i < length ids \<Longrightarrow> batches U api ids i st = st"
  by (subst batches.simps) simp

lemma batches_rows_inv:
  assumes base: "\<forall>r\<in>set (rows st). P r"
    and step: "\<forall>n b data. api n b = Inr (VDict data) \<longrightarrow> (\<forall>r\<in>set (batch_rows U data b). P r)"
  shows "\<forall>r\<in>set (rows (batches U api ids i st)). P r"
  using base step
proof (induction U api ids i st rule: batches.induct)
  case (1 U api ids i st)
  show ?case
  proof (cases "i < length ids")
    case True
    let ?b = "take BATCH (drop i ids)"
    have "\<forall>r\<in>set (rows (run_batch U api i ?b st)). P r"
      using run_batch_rows[of U api i ?b st] "1.prems" by auto
    then have "\<forall>r\<in>set (rows (batches U api ids (i + BATCH) (run_batch U api i ?b st))). P r"
      using "1.prems"(2) by (rule "1.IH"[OF True])
    then show ?thesis by (subst batches_unfold[OF True])
  next
    case False
    with "1.prems" show ?thesis by (simp add: batches_done)
  qed
qed

lemma run_batch_out:
  "\<exists>evs. out (run_batch U api i b st) = out st @ Call b # evs \<and>
         (\<forall>e\<in>set evs. \<forall>rs. e \<noteq> WriteCsv rs) \<and> (\<forall>e\<in>set evs. \<forall>c. e \<noteq> Call c)"
  by (auto simp: run_batch_def failed_def Let_def split: sum.splits pyval.splits)

lemma calls_append: "calls (xs @ ys) = calls xs @ calls ys"
  by (induction xs rule: calls.induct) auto

lemma calls_none: "\<forall>e\<in>set evs. \<forall>c. e \<noteq> Call c \<Longrightarrow> calls evs = []"
  by (induction evs rule: calls.induct) auto

lemma run_batch_calls: "calls (out (run_batch U api i b st)) = calls (out st) @ [b]"
proof -
  obtain evs where "out (run_batch U api i b st) = out st @ Call b # evs"
    "\<forall>e\<in>set evs. \<forall>c. e \<noteq> Call c"
    using run_batch_out[of U api i b st] by blast
  then show ?thesis by (simp add: calls_append calls_none)
qed

lemma take_drop_step: "take BATCH (drop i ids) @ drop (i + BATCH) ids = drop i ids"
  by (metis add.commute append_take_drop_id drop_drop)

lemma batches_calls:
  "concat (calls (out (batches U api ids i st))) = concat (calls (out st)) @ drop i ids \<and>
   (\<forall>b \<in> set (calls (out (batches U api ids i st))).
      b \<in> set (calls (out st)) \<or> (b \<noteq> [] \<and> length b \<le> BATCH))"
proof (induction U api ids i st rule: batches.induct)
  case (1 U api ids i st)
  show ?case
  proof (cases "i < length ids")
    case True
    let ?b = "take BATCH (drop i ids)"
    have ne: "?b \<noteq> []" using True by (simp add: BATCH_def)
    show ?thesis
      using "1.IH"[OF True] take_drop_step[of i ids] ne
      by (auto simp: batches_unfold[OF True] run_batch_calls)
  next
    case False
    then show ?thesis by (simp add: batches_done)
  qed
qed

lemma batches_rows_subseq:
  "\<exists>new. rows (batches U api ids i st) = rows st @ new \<and> subseq (map sellerId new) (drop i ids)"
proof (induction U api ids i st rule: batches.induct)
  case (1 U api ids i st)
  show ?case
  proof (cases "i < length ids")
    case True
    let ?b = "take BATCH (drop i ids)"
    obtain n1 where n1: "rows (run_batch U api i ?b st) = rows st @ n1" "subseq (map sellerId n1) ?b"
      using run_batch_rows[of U api i ?b st] batch_rows_subseq by fastforce
    obtain n2 where n2: "rows (batches U api ids (i + BATCH) (run_batch U api i ?b st)) =
          rows (run_batch U api i ?b st) @ n2"
        "subseq (map sellerId n2) (drop (i + BATCH) ids)"
      using "1.IH"[OF True] by blast
    have "subseq (map sellerId (n1 @ n2)) (?b @ drop (i + BATCH) ids)"
      using n1(2) n2(2) by (simp add: list_emb_append_mono)
    with n1 n2 take_drop_step[of i ids] show ?thesis by (simp add: batches_unfold[OF True])
  next
    case False
    then show ?thesis by (simp add: batches_done)
  qed
qed

lemma batches_no_csv:
  "WriteCsv rs \<in> set (out (batches U api ids i st)) \<Longrightarrow> WriteCsv rs \<in> set (out st)"
proof (induction U api ids i st rule: batches.induct)
  case (1 U api ids i st)
  show ?case
  proof (cases "i < length ids")
    case True
    let ?b = "take BATCH (drop i ids)"
    from "1.prems" "1.IH"[OF True] have "WriteCsv rs \<in> set (out (run_batch U api i ?b st))"
      by (simp add: batches_unfold[OF True])
    then show ?thesis using run_batch_out[of U api i ?b st] by auto
  next
    case False
    with "1.prems" show ?thesis by (simp add: batches_done)
  qed
qed

lemma main_Inr:
  assumes "main U f api = Inr st"
  obtains ids where "load_seller_ids f = Inr ids"
    and "rows st = rows (batches U api ids 0 init)"
    and "out st = out (batches U api ids 0 init) @
           [WriteCsv (rows (batches U api ids 0 init)),
            Print (done_line (length (rows (batches U api ids 0 init))))]"
  using assms by (auto simp: main_def Let_def split: sum.splits)

lemma state_eqI: "rows (a::state) = rows b \<Longrightarrow> out a = out b \<Longrightarrow> a = b"
  by simp

lemma run_batch_append:
  "rows (run_batch U api i b st) = rows st @ rows (run_batch U api i b init) \<and>
   out (run_batch U api i b st) = out st @ out (run_batch U api i b init)"
  by (auto simp: run_batch_def failed_def init_def Let_def split: sum.splits pyval.splits)

lemma batches_append:
  "rows (batches U api ids i st) = rows st @ rows (batches U api ids i init) \<and>
   out (batches U api ids i st) = out st @ out (batches U api ids i init)"
proof (induction "length ids - i" arbitrary: i st rule: less_induct)
  case less
  show ?case
  proof (cases "i < length ids")
    case True
    let ?b = "take BATCH (drop i ids)"
    have m: "length ids - (i + BATCH) < length ids - i" using True by (simp add: BATCH_def)
    note a = less[OF m, of "run_batch U api i ?b st"]
    note b = less[OF m, of "run_batch U api i ?b init"]
    note c = run_batch_append[of U api i ?b st]
    show ?thesis
      unfolding batches_unfold[OF True] using a b c by simp
  next
    case False
    then show ?thesis by (simp add: batches_done init_def)
  qed
qed

lemma batches_take:
  assumes "j \<le> length ids" and "i \<le> j" and "BATCH dvd (j - i)"
  shows "batches U api ids i st = batches U api ids j (batches U api (take j ids) i st)"
  using assms
proof (induction "j - i" arbitrary: i st rule: less_induct)
  case less
  show ?case
  proof (cases "i = j")
    case True
    then show ?thesis using less.prems by (simp add: batches_done)
  next
    case False
    with less.prems have lt: "i < j" by simp
    from less.prems(3) obtain q where q: "j - i = BATCH * q" by (auto simp: dvd_def)
    with lt have qpos: "0 < q" by (cases q) auto
    then have ge: "BATCH \<le> j - i" using q by (cases q) auto
    have i1: "i < length ids" using lt less.prems(1) by simp
    have i2: "i < length (take j ids)" using lt less.prems(1) by simp
    have b: "take BATCH (drop i (take j ids)) = take BATCH (drop i ids)"
      using ge by (simp add: drop_take min_def)
    have m: "j - (i + BATCH) < j - i" using ge lt by (simp add: BATCH_def)
    have "j - (i + BATCH) = BATCH * (q - 1)"
      using q qpos by (simp add: algebra_simps diff_mult_distrib2)
    then have d: "BATCH dvd (j - (i + BATCH))" by simp
    have le: "i + BATCH \<le> j" using ge lt by simp
    have "batches U api ids (i + BATCH) (run_batch U api i (take BATCH (drop i ids)) st) =
          batches U api ids j
            (batches U api (take j ids) (i + BATCH) (run_batch U api i (take BATCH (drop i ids)) st))"
      by (rule less.hyps[OF m less.prems(1) le d])
    then show ?thesis
      unfolding batches_unfold[OF i1] batches_unfold[OF i2] b .
  qed
qed

lemma run_batch_failed:
  assumes "api (i div BATCH) b = Inl e"
  shows "run_batch U api i b st =
           st\<lparr>out := out st @ [Call b, Print (warn (i div BATCH + 1) e), Sleep 2]\<rparr>"
  using assms by (simp add: run_batch_def failed_def Let_def)

lemma batches_rows_made:
  assumes "BATCH dvd i"
  shows "\<forall>r\<in>set (rows (batches U api ids i st)).
           r \<in> set (rows st) \<or>
           (\<exists>k data. k * BATCH < length ids \<and>
               api k (take BATCH (drop (k * BATCH) ids)) = Inr (VDict data) \<and>
               r \<in> set (batch_rows U data (take BATCH (drop (k * BATCH) ids))))"
  using assms
proof (induction U api ids i st rule: batches.induct)
  case (1 U api ids i st)
  let ?Q = "\<lambda>r. \<exists>k data. k * BATCH < length ids \<and>
               api k (take BATCH (drop (k * BATCH) ids)) = Inr (VDict data) \<and>
               r \<in> set (batch_rows U data (take BATCH (drop (k * BATCH) ids)))"
  show ?case
  proof (cases "i < length ids")
    case True
    let ?b = "take BATCH (drop i ids)"
    let ?st1 = "run_batch U api i ?b st"
    have ik: "i div BATCH * BATCH = i" using "1.prems" by simp
    have d: "BATCH dvd (i + BATCH)" using "1.prems" by simp
    have s1: "\<forall>r\<in>set (rows ?st1). r \<in> set (rows st) \<or> ?Q r"
    proof
      fix r assume r: "r \<in> set (rows ?st1)"
      from run_batch_rows[of U api i ?b st]
      show "r \<in> set (rows st) \<or> ?Q r"
      proof
        assume "rows ?st1 = rows st"
        with r show ?thesis by simp
      next
        assume "\<exists>data. api (i div BATCH) ?b = Inr (VDict data) \<and>
                  rows ?st1 = rows st @ batch_rows U data ?b"
        then obtain data where a: "api (i div BATCH) ?b = Inr (VDict data)"
          and e: "rows ?st1 = rows st @ batch_rows U data ?b" by blast
        from r e consider "r \<in> set (rows st)" | "r \<in> set (batch_rows U data ?b)" by auto
        then show ?thesis
        proof cases
          case 1
          then show ?thesis ..
        next
          case 2
          have "i div BATCH * BATCH < length ids \<and>
                api (i div BATCH) (take BATCH (drop (i div BATCH * BATCH) ids)) = Inr (VDict data) \<and>
                r \<in> set (batch_rows U data (take BATCH (drop (i div BATCH * BATCH) ids)))"
            unfolding ik using True a 2 by simp
          then have "?Q r" by blast
          then show ?thesis ..
        qed
      qed
    qed
    have "\<forall>r\<in>set (rows (batches U api ids (i + BATCH) ?st1)). r \<in> set (rows ?st1) \<or> ?Q r"
      by (rule "1.IH"[OF True d])
    with s1 have "\<forall>r\<in>set (rows (batches U api ids (i + BATCH) ?st1)). r \<in> set (rows st) \<or> ?Q r"
      by blast
    then show ?thesis unfolding batches_unfold[OF True] .
  next
    case False
    then show ?thesis by (simp add: batches_done)
  qed
qed

lemma main_rows_made:
  assumes "main U f api = Inr st" and "r \<in> set (rows st)"
  shows "\<exists>ids k data. load_seller_ids f = Inr ids \<and> k * BATCH < length ids \<and>
           api k (take BATCH (drop (k * BATCH) ids)) = Inr (VDict data) \<and>
           r \<in> set (batch_rows U data (take BATCH (drop (k * BATCH) ids)))"
proof -
  from assms(1) obtain ids where l: "load_seller_ids f = Inr ids"
    and st: "rows st = rows (batches U api ids 0 init)"
    by (rule main_Inr)
  have "\<forall>r\<in>set (rows (batches U api ids 0 init)).
           r \<in> set (rows init) \<or>
           (\<exists>k data. k * BATCH < length ids \<and>
               api k (take BATCH (drop (k * BATCH) ids)) = Inr (VDict data) \<and>
               r \<in> set (batch_rows U data (take BATCH (drop (k * BATCH) ids))))"
    by (rule batches_rows_made) simp
  with assms(2) st l show ?thesis by (auto simp: init_def)
qed

section \<open>Claims about the pipeline\<close>

text \<open>
  C1. Every row of the output collection, which is exactly what is written to the CSV file,
  has \<open>establishedCountry\<close> equal to \<open>"GB"\<close> or \<open>"UK"\<close>, and it comes from a
  record, in the answer to the lookup made for a chunk of the input, whose inferred
  country is that value: a record whose inferred country is anything else, or
  undetermined, gives no row.
\<close>

theorem emitted_rows_gb_or_uk:
  assumes "main U f api = Inr st"
  shows "(\<forall>r\<in>set (rows st).
            (establishedCountry r = py ''GB'' \<or> establishedCountry r = py ''UK'') \<and>
            (\<exists>ids k data s. load_seller_ids f = Inr ids \<and> k * BATCH < length ids \<and>
                api k (take BATCH (drop (k * BATCH) ids)) = Inr (VDict data) \<and>
                map_of data (sellerId r) = Some (VDict s) \<and>
                extract_country_from_seller U s = Some (establishedCountry r))) \<and>
         WriteCsv (rows st) \<in> set (out st) \<and>
         (\<forall>rs. WriteCsv rs \<in> set (out st) \<longrightarrow> rs = rows st)"
proof -
  from assms obtain ids where l: "load_seller_ids f = Inr ids"
    and r: "rows st = rows (batches U api ids 0 init)"
    and ou: "out st = out (batches U api ids 0 init) @
        [WriteCsv (rows (batches U api ids 0 init)),
         Print (done_line (length (rows (batches U api ids 0 init))))]"
    by (rule main_Inr)
  have a: "\<forall>r\<in>set (rows st).
            (establishedCountry r = py ''GB'' \<or> establishedCountry r = py ''UK'') \<and>
            (\<exists>ids k data s. load_seller_ids f = Inr ids \<and> k * BATCH < length ids \<and>
                api k (take BATCH (drop (k * BATCH) ids)) = Inr (VDict data) \<and>
                map_of data (sellerId r) = Some (VDict s) \<and>
                extract_country_from_seller U s = Some (establishedCountry r))"
  proof
    fix x assume x: "x \<in> set (rows st)"
    from main_rows_made[OF assms x] obtain ids k data where
      m: "load_seller_ids f = Inr ids" "k * BATCH < length ids"
         "api k (take BATCH (drop (k * BATCH) ids)) = Inr (VDict data)"
      and b: "x \<in> set (batch_rows U data (take BATCH (drop (k * BATCH) ids)))"
      by blast
    from batch_rows_origin[OF b] obtain s where
      s: "map_of data (sellerId x) = Some (VDict s)"
         "extract_country_from_seller U s = Some (establishedCountry x)"
         "establishedCountry x = py ''GB'' \<or> establishedCountry x = py ''UK''"
      by blast
    from m s show "(establishedCountry x = py ''GB'' \<or> establishedCountry x = py ''UK'') \<and>
            (\<exists>ids k data s. load_seller_ids f = Inr ids \<and> k * BATCH < length ids \<and>
                api k (take BATCH (drop (k * BATCH) ids)) = Inr (VDict data) \<and>
                map_of data (sellerId x) = Some (VDict s) \<and>
                extract_country_from_seller U s = Some (establishedCountry x))"
      by blast
  qed
  have b: "WriteCsv (rows st) \<in> set (out st)"
    by (simp add: ou r)
  have c: "\<forall>rs. WriteCsv rs \<in> set (out st) \<longrightarrow> rs = rows st"
    using batches_no_csv[of _ U api ids 0 init] by (auto simp: ou r init_def)
  from a b c show ?thesis by (intro conjI)
qed

theorem emitted_rows_gb_or_uk_witness:
  "main latin1 (Content (py ''A1'')) named_lookup =
     Inr \<lparr>rows = [\<lparr>sellerId = py ''A1'', sellerName = py ''Acme Ltd'',
                    establishedCountry = py ''GB'',
                    amazonUrl = py ''https://www.amazon.de/sp?seller=A1'',
                    keepaUrl = py ''https://keepa.com/#!seller/DE/A1''\<rparr>],
          out = [Call [py ''A1''],
                 WriteCsv [\<lparr>sellerId = py ''A1'', sellerName = py ''Acme Ltd'',
                    establishedCountry = py ''GB'',
                    amazonUrl = py ''https://www.amazon.de/sp?seller=A1'',
                    keepaUrl = py ''https://keepa.com/#!seller/DE/A1''\<rparr>],
                 Print (py ''Done. Wrote 1 GB/UK sellers to gb_sellers_in_de.csv'')]\<rparr>"
  (is "?m = Inr ?st")
proof -
  have m: "?m = Inr ?st"
    by code_simp
  from emitted_rows_gb_or_uk[OF m] have "WriteCsv (rows ?st) \<in> set (out ?st)"
    by (rule conjunct2[THEN conjunct1])
  with m show ?thesis by simp
qed

text \<open>
  C9. The \<open>sellerId\<close>s of the emitted rows are a subsequence of the loaded identifiers
  (so also a subset), and the lookup is called on consecutive, non-empty chunks of at
  most 100 identifiers that together are the whole input sequence.
\<close>

theorem emitted_ids_subsequence:
  assumes "main U f api = Inr st"
  shows "\<exists>ids. load_seller_ids f = Inr ids \<and>
           subseq (map sellerId (rows st)) ids \<and>
           set (map sellerId (rows st)) \<subseteq> set ids \<and>
           concat (calls (out st)) = ids \<and>
           (\<forall>b\<in>set (calls (out st)). b \<noteq> [] \<and> length b \<le> 100)"
proof -
  from assms obtain ids where ld: "load_seller_ids f = Inr ids"
    and r: "rows st = rows (batches U api ids 0 init)"
    and ou: "out st = out (batches U api ids 0 init) @
        [WriteCsv (rows (batches U api ids 0 init)),
         Print (done_line (length (rows (batches U api ids 0 init))))]"
    by (rule main_Inr)
  have s: "subseq (map sellerId (rows st)) ids"
    using batches_rows_subseq[of U api ids 0 init] r by (auto simp: init_def)
  have "set (map sellerId (rows st)) \<subseteq> set ids"
  proof
    fix x assume "x \<in> set (map sellerId (rows st))"
    with s obtain y where "y \<in> set ids" "x = y" by (rule list_emb_set)
    then show "x \<in> set ids" by simp
  qed
  moreover have c: "calls (out st) = calls (out (batches U api ids 0 init))"
    by (simp add: ou calls_append)
  moreover have "concat (calls (out (batches U api ids 0 init))) = ids"
    using batches_calls[of U api ids 0 init] by (simp add: init_def)
  moreover have "\<forall>b\<in>set (calls (out (batches U api ids 0 init))). b \<noteq> [] \<and> length b \<le> 100"
    using batches_calls[of U api ids 0 init] by (simp add: BATCH_def init_def)
  ultimately show ?thesis using ld s by auto
qed

theorem emitted_ids_subsequence_witness:
  "main latin1 (Content (py ''S1'' @ [10] @ py ''S0'' @ [10] @ py '' S1 '' @ [10])) steady_lookup =
     Inr \<lparr>rows = [make_row latin1 (py ''S1'') [(py ''country'', VStr (py ''uk''))] (py ''UK''),
                  make_row latin1 (py ''S1'') [(py ''country'', VStr (py ''uk''))] (py ''UK'')],
          out = [Call [py ''S1'', py ''S0'', py ''S1''],
                 WriteCsv [make_row latin1 (py ''S1'') [(py ''country'', VStr (py ''uk''))] (py ''UK''),
                           make_row latin1 (py ''S1'') [(py ''country'', VStr (py ''uk''))] (py ''UK'')],
                 Print (py ''Done. Wrote 2 GB/UK sellers to gb_sellers_in_de.csv'')]\<rparr> \<and>
   load_seller_ids (Content (py ''S1'' @ [10] @ py ''S0'' @ [10] @ py '' S1 '' @ [10])) =
     Inr [py ''S1'', py ''S0'', py ''S1''] \<and>
   subseq [py ''S1'', py ''S1''] [py ''S1'', py ''S0'', py ''S1'']"
proof -
  let ?f = "Content (py ''S1'' @ [10] @ py ''S0'' @ [10] @ py '' S1 '' @ [10])"
  let ?r = "make_row latin1 (py ''S1'') [(py ''country'', VStr (py ''uk''))] (py ''UK'')"
  let ?st = "\<lparr>rows = [?r, ?r],
          out = [Call [py ''S1'', py ''S0'', py ''S1''], WriteCsv [?r, ?r],
                 Print (py ''Done. Wrote 2 GB/UK sellers to gb_sellers_in_de.csv'')]\<rparr>"
  have m: "main latin1 ?f steady_lookup = Inr ?st"
    by code_simp
  have l: "load_seller_ids ?f = Inr [py ''S1'', py ''S0'', py ''S1'']"
    by code_simp
  from emitted_ids_subsequence[OF m] l
  have "subseq (map sellerId (rows ?st)) [py ''S1'', py ''S0'', py ''S1'']"
    by auto
  then have "subseq [py ''S1'', py ''S1''] [py ''S1'', py ''S0'', py ''S1'']"
    by (simp add: make_row_def)
  with m l show ?thesis by (intro conjI)
qed

text \<open>
  C2. Take a run whose \<open>k\<close>-th chunk (from 0) has its lookup raise an error \<open>e\<close>. The run is
  not aborted: it ends normally, and its result is this. Its rows are the rows of the
  chunks before, unchanged, followed by the rows of the chunks after: the failed chunk
  gives none. Its trace is the trace of the chunks before, then the call on the failed
  chunk, the warning with the chunk's number \<open>k + 1\<close> and the error, and a sleep of 2,
  then the trace of the chunks after, starting with the next chunk, and the writing of
  the file.
\<close>

theorem failed_chunk_skipped:
  assumes "load_seller_ids f = Inr ids"
    and "k * BATCH < length ids"
    and "api k (take BATCH (drop (k * BATCH) ids)) = Inl e"
  shows "main U f api =
           Inr \<lparr>rows = rows (batches U api (take (k * BATCH) ids) 0 init) @
                       rows (batches U api ids (k * BATCH + BATCH) init),
                out = out (batches U api (take (k * BATCH) ids) 0 init) @
                      [Call (take BATCH (drop (k * BATCH) ids)),
                       Print (py ''[warn] batch '' @ str_nat (k + 1) @ py '' failed: '' @ e),
                       Sleep 2] @
                      out (batches U api ids (k * BATCH + BATCH) init) @
                      [WriteCsv (rows (batches U api (take (k * BATCH) ids) 0 init) @
                                 rows (batches U api ids (k * BATCH + BATCH) init)),
                       Print (done_line
                         (length (rows (batches U api (take (k * BATCH) ids) 0 init) @
                                  rows (batches U api ids (k * BATCH + BATCH) init))))]\<rparr>"
proof -
  let ?j = "k * BATCH"
  let ?B = "batches U api (take ?j ids) 0 init"
  let ?A = "batches U api ids (?j + BATCH) init"
  let ?b = "take BATCH (drop ?j ids)"
  let ?ev = "[Call ?b, Print (py ''[warn] batch '' @ str_nat (k + 1) @ py '' failed: '' @ e), Sleep 2]"
  let ?S = "batches U api ids 0 init"
  have kd: "?j div BATCH = k" by (simp add: BATCH_def)
  have "?S = batches U api ids ?j ?B"
    using assms(2) by (intro batches_take) simp_all
  also have "\<dots> = batches U api ids (?j + BATCH) (run_batch U api ?j ?b ?B)"
    by (rule batches_unfold[OF assms(2)])
  finally have S: "?S = batches U api ids (?j + BATCH) (run_batch U api ?j ?b ?B)" .
  have rb: "run_batch U api ?j ?b ?B = ?B\<lparr>out := out ?B @ ?ev\<rparr>"
    using assms(3) run_batch_failed[of api ?j ?b e U ?B] by (simp add: kd warn_def)
  have r: "rows ?S = rows ?B @ rows ?A"
    unfolding S rb using batches_append[of U api ids "?j + BATCH" "?B\<lparr>out := out ?B @ ?ev\<rparr>"]
    by simp
  have o: "out ?S = out ?B @ ?ev @ out ?A"
    unfolding S rb using batches_append[of U api ids "?j + BATCH" "?B\<lparr>out := out ?B @ ?ev\<rparr>"]
    by simp
  have "main U f api = Inr (?S\<lparr>out := out ?S @ [WriteCsv (rows ?S), Print (done_line (length (rows ?S)))]\<rparr>)"
    using assms(1) by (simp add: main_def Let_def)
  also have "?S\<lparr>out := out ?S @ [WriteCsv (rows ?S), Print (done_line (length (rows ?S)))]\<rparr> =
        \<lparr>rows = rows ?B @ rows ?A,
         out = out ?B @ ?ev @ out ?A @
               [WriteCsv (rows ?B @ rows ?A), Print (done_line (length (rows ?B @ rows ?A)))]\<rparr>"
    by (rule state_eqI) (simp_all add: r o)
  finally show ?thesis .
qed

theorem failed_chunk_skipped_witness:
  "main latin1
     (Content (py ''S1'' @ [10] @ concat (replicate 99 (py ''S0'' @ [10])) @ py ''S1''))
     flaky_lookup =
     Inr \<lparr>rows = [make_row latin1 (py ''S1'') [(py ''country'', VStr (py ''uk''))] (py ''UK'')],
          out = [Call ([py ''S1''] @ replicate 99 (py ''S0'')),
                 Call [py ''S1''],
                 Print (py ''[warn] batch 2 failed: timeout''),
                 Sleep 2,
                 WriteCsv [make_row latin1 (py ''S1'') [(py ''country'', VStr (py ''uk''))] (py ''UK'')],
                 Print (py ''Done. Wrote 1 GB/UK sellers to gb_sellers_in_de.csv'')]\<rparr>"
proof -
  let ?f = "Content (py ''S1'' @ [10] @ concat (replicate 99 (py ''S0'' @ [10])) @ py ''S1'')"
  let ?ids = "[py ''S1''] @ replicate 99 (py ''S0'') @ [py ''S1'']"
  let ?r = "make_row latin1 (py ''S1'') [(py ''country'', VStr (py ''uk''))] (py ''UK'')"
  have l: "load_seller_ids ?f = Inr ?ids"
    by code_simp
  have c: "1 * BATCH < length ?ids"
    by (simp add: BATCH_def)
  have a: "flaky_lookup 1 (take BATCH (drop (1 * BATCH) ?ids)) = Inl (py ''timeout'')"
    by (simp add: flaky_lookup_def)
  have B: "batches latin1 flaky_lookup (take (1 * BATCH) ?ids) 0 init =
             \<lparr>rows = [?r], out = [Call ([py ''S1''] @ replicate 99 (py ''S0''))]\<rparr>"
    by code_simp
  have A: "batches latin1 flaky_lookup ?ids (1 * BATCH + BATCH) init = \<lparr>rows = [], out = []\<rparr>"
    by code_simp
  have t: "take BATCH (drop (1 * BATCH) ?ids) = [py ''S1'']"
    by code_simp
  have w: "py ''[warn] batch '' @ str_nat (1 + 1) @ py '' failed: '' @ py ''timeout'' =
           py ''[warn] batch 2 failed: timeout''"
    by code_simp
  have d: "done_line (Suc 0) = py ''Done. Wrote 1 GB/UK sellers to gb_sellers_in_de.csv''"
    by code_simp
  show ?thesis
    using failed_chunk_skipped[where U = latin1 and f = ?f and ids = ?ids and k = 1
        and api = flaky_lookup and e = "py ''timeout''", OF l c a]
    unfolding B A t w by (simp add: d)
qed

section \<open>Claims about the rows\<close>

lemma strip_Nil: "strip [] = []"
  by (simp add: strip_def rstrip_def lstrip_def)

lemma seller_name_cases:
  "seller_name U s =
     (case map_of s (py ''sellerName'') of
        None \<Rightarrow> []
      | Some (VStr v) \<Rightarrow> strip v
      | Some v \<Rightarrow> if truthy v then strip (py_repr U v) else [])"
  by (auto simp: seller_name_def py_str_def strip_Nil split: option.splits pyval.splits)

text \<open>
  C7, as the script has it. An emitted row is built from the record that the answer to
  the lookup made for a chunk gives for the row's \<open>sellerId\<close>, and its \<open>sellerName\<close> is
  the trimmed value of that record's field when it is a string; the empty string when the
  field is absent or holds a falsy value; and the trimmed \<open>str\<close> of the value when it is
  a truthy value that is not a string.
\<close>

theorem seller_name_of_row:
  assumes "main U f api = Inr st" and "r \<in> set (rows st)"
  shows "\<exists>ids k data s.
           load_seller_ids f = Inr ids \<and> k * BATCH < length ids \<and>
           api k (take BATCH (drop (k * BATCH) ids)) = Inr (VDict data) \<and>
           sellerId r \<in> set (take BATCH (drop (k * BATCH) ids)) \<and>
           map_of data (sellerId r) = Some (VDict s) \<and>
           r = make_row U (sellerId r) s (establishedCountry r) \<and>
           sellerName r =
             (case map_of s (py ''sellerName'') of
                None \<Rightarrow> []
              | Some (VStr v) \<Rightarrow> strip v
              | Some v \<Rightarrow> if truthy v then strip (py_repr U v) else [])"
proof -
  from main_rows_made[OF assms] obtain ids k data where
    m: "load_seller_ids f = Inr ids" "k * BATCH < length ids"
       "api k (take BATCH (drop (k * BATCH) ids)) = Inr (VDict data)"
    and b: "r \<in> set (batch_rows U data (take BATCH (drop (k * BATCH) ids)))"
    by blast
  from batch_rows_origin[OF b] obtain s where
    s: "sellerId r \<in> set (take BATCH (drop (k * BATCH) ids))"
       "map_of data (sellerId r) = Some (VDict s)"
       "r = make_row U (sellerId r) s (establishedCountry r)"
    by blast
  from s(3) have "sellerName r = seller_name U s"
    by (metis make_row_def row.select_convs(2))
  with m s show ?thesis unfolding seller_name_cases by blast
qed

theorem seller_name_of_row_witness:
  "main latin1 (Content (py ''A1'')) named_lookup =
     Inr \<lparr>rows = [\<lparr>sellerId = py ''A1'', sellerName = py ''Acme Ltd'',
                    establishedCountry = py ''GB'',
                    amazonUrl = py ''https://www.amazon.de/sp?seller=A1'',
                    keepaUrl = py ''https://keepa.com/#!seller/DE/A1''\<rparr>],
          out = [Call [py ''A1''],
                 WriteCsv [\<lparr>sellerId = py ''A1'', sellerName = py ''Acme Ltd'',
                    establishedCountry = py ''GB'',
                    amazonUrl = py ''https://www.amazon.de/sp?seller=A1'',
                    keepaUrl = py ''https://keepa.com/#!seller/DE/A1''\<rparr>],
                 Print (py ''Done. Wrote 1 GB/UK sellers to gb_sellers_in_de.csv'')]\<rparr> \<and>
   strip (py ''  Acme Ltd '') = py ''Acme Ltd''"
proof -
  let ?r = "\<lparr>sellerId = py ''A1'', sellerName = py ''Acme Ltd'',
                    establishedCountry = py ''GB'',
                    amazonUrl = py ''https://www.amazon.de/sp?seller=A1'',
                    keepaUrl = py ''https://keepa.com/#!seller/DE/A1''\<rparr>"
  let ?st = "\<lparr>rows = [?r], out = [Call [py ''A1''], WriteCsv [?r],
                 Print (py ''Done. Wrote 1 GB/UK sellers to gb_sellers_in_de.csv'')]\<rparr>"
  have m: "main latin1 (Content (py ''A1'')) named_lookup = Inr ?st"
    by code_simp
  have r: "?r \<in> set (rows ?st)"
    by simp
  have s: "strip (py ''  Acme Ltd '') = py ''Acme Ltd''"
    by code_simp
  from seller_name_of_row[OF m r] have "\<exists>ids k data s.
           load_seller_ids (Content (py ''A1'')) = Inr ids \<and> k * BATCH < length ids \<and>
           named_lookup k (take BATCH (drop (k * BATCH) ids)) = Inr (VDict data)"
    by blast
  with m s show ?thesis by (intro conjI)
qed

text \<open>
  C7 as stated fails: a record whose \<open>sellerName\<close> is the number 123 gives a row named
  \<open>"123"\<close>, where the claim has the empty string.
\<close>

theorem seller_name_counterexample:
  "main latin1 (Content (py ''A1'')) numeric_name_lookup =
     Inr \<lparr>rows = [\<lparr>sellerId = py ''A1'', sellerName = py ''123'',
                    establishedCountry = py ''GB'',
                    amazonUrl = py ''https://www.amazon.de/sp?seller=A1'',
                    keepaUrl = py ''https://keepa.com/#!seller/DE/A1''\<rparr>],
          out = [Call [py ''A1''],
                 WriteCsv [\<lparr>sellerId = py ''A1'', sellerName = py ''123'',
                    establishedCountry = py ''GB'',
                    amazonUrl = py ''https://www.amazon.de/sp?seller=A1'',
                    keepaUrl = py ''https://keepa.com/#!seller/DE/A1''\<rparr>],
                 Print (py ''Done. Wrote 1 GB/UK sellers to gb_sellers_in_de.csv'')]\<rparr> \<and>
   claimed_seller_name [(py ''sellerName'', VInt 123), (py ''country'', VStr (py ''GB''))] = []"
  by code_simp

section \<open>Claims about the input loader\<close>

lemma blank_iff_strip: "blank l \<longleftrightarrow> strip l = []"
  by (simp add: blank_def strip_Nil_iff list_all_iff)

lemma nonblank_filter: "filter (\<lambda>line. strip line \<noteq> []) ls = filter (\<lambda>l. \<not> blank l) ls"
  by (simp add: blank_iff_strip)

lemma py_lines_Nil: "py_lines t = [] \<longleftrightarrow> t = []"
  by (induction t rule: py_lines.induct) (auto split: list.splits)

lemma py_lines_concat: "0x0D \<notin> set t \<Longrightarrow> concat (py_lines t) = t"
  by (induction t rule: py_lines.induct) (auto simp: py_lines_Nil split: list.splits)

text \<open>
  C8. On a missing file the loader ends the run with its message. On a file with a text it
  returns exactly the trimmed non-blank lines, in file order and with duplicates kept,
  unless there is none, and then it ends the run with its other message. So it fails
  exactly when the file is missing or every line is blank, and every identifier it
  returns is non-empty and neither starts nor ends with whitespace.
\<close>

theorem load_seller_ids_spec:
  "load_seller_ids Missing =
     Inl (SystemExit (py ''Missing seller_ids.txt. Create it with one seller ID per line.'')) \<and>
   (\<forall>t ids. load_seller_ids (Content t) = Inr ids \<longleftrightarrow>
        ids = map strip (filter (\<lambda>l. \<not> blank l) (py_lines t)) \<and> ids \<noteq> []) \<and>
   (\<forall>t. load_seller_ids (Content t) =
        Inl (SystemExit (py ''seller_ids.txt has no seller IDs. Add at least one.'')) \<longleftrightarrow>
        map strip (filter (\<lambda>l. \<not> blank l) (py_lines t)) = []) \<and>
   (\<forall>f. isl (load_seller_ids f) \<longleftrightarrow>
        f = Missing \<or> (\<exists>t. f = Content t \<and> (\<forall>l\<in>set (py_lines t). blank l))) \<and>
   (\<forall>f ids. load_seller_ids f = Inr ids \<longrightarrow>
        (\<forall>x\<in>set ids. x \<noteq> [] \<and> \<not> is_space (hd x) \<and> \<not> is_space (last x)))"
proof -
  have m1: "py ''Missing '' @ INPUT_FILE @ py ''. Create it with one seller ID per line.'' =
            py ''Missing seller_ids.txt. Create it with one seller ID per line.''"
    by code_simp
  have m2: "INPUT_FILE @ py '' has no seller IDs. Add at least one.'' =
            py ''seller_ids.txt has no seller IDs. Add at least one.''"
    by code_simp
  have a: "load_seller_ids Missing =
     Inl (SystemExit (py ''Missing seller_ids.txt. Create it with one seller ID per line.''))"
    by (simp add: load_seller_ids_def m1)
  have b: "load_seller_ids (Content t) =
      (if map strip (filter (\<lambda>l. \<not> blank l) (py_lines t)) = []
       then Inl (SystemExit (py ''seller_ids.txt has no seller IDs. Add at least one.''))
       else Inr (map strip (filter (\<lambda>l. \<not> blank l) (py_lines t))))" for t
    by (simp add: load_seller_ids_def m2 Let_def nonblank_filter)
  have c: "\<forall>t ids. load_seller_ids (Content t) = Inr ids \<longleftrightarrow>
        ids = map strip (filter (\<lambda>l. \<not> blank l) (py_lines t)) \<and> ids \<noteq> []"
    by (auto simp: b)
  have d: "\<forall>t. load_seller_ids (Content t) =
        Inl (SystemExit (py ''seller_ids.txt has no seller IDs. Add at least one.'')) \<longleftrightarrow>
        map strip (filter (\<lambda>l. \<not> blank l) (py_lines t)) = []"
    by (simp add: b)
  have e: "isl (load_seller_ids f) \<longleftrightarrow>
        f = Missing \<or> (\<exists>t. f = Content t \<and> (\<forall>l\<in>set (py_lines t). blank l))" for f
  proof (cases f)
    case Missing
    then show ?thesis by (simp add: a)
  next
    case (Content t)
    then show ?thesis by (simp add: b filter_empty_conv)
  qed
  have g: "\<forall>x\<in>set ids. x \<noteq> [] \<and> \<not> is_space (hd x) \<and> \<not> is_space (last x)"
    if "load_seller_ids f = Inr ids" for f ids
  proof
    fix x assume x: "x \<in> set ids"
    from that obtain t where "f = Content t" by (cases f) (simp_all add: a)
    with that c have "ids = map strip (filter (\<lambda>l. \<not> blank l) (py_lines t))" by simp
    with x obtain l where "x = strip l" "\<not> blank l" by auto
    then have "x = strip l" "strip l \<noteq> []" by (simp_all add: blank_iff_strip)
    then show "x \<noteq> [] \<and> \<not> is_space (hd x) \<and> \<not> is_space (last x)"
      using strip_not_space[of l] by simp
  qed
  show ?thesis using a c d e g by blast
qed

theorem load_seller_ids_spec_witness:
  "load_seller_ids (Content (py '' A1 '' @ [10, 10] @ py ''B2'' @ [13, 10, 0xA0, 0x20, 10] @ py ''A1'')) =
     Inr [py ''A1'', py ''B2'', py ''A1''] \<and>
   [py ''A1'', py ''B2'', py ''A1''] =
     map strip (filter (\<lambda>l. \<not> blank l)
       (py_lines (py '' A1 '' @ [10, 10] @ py ''B2'' @ [13, 10, 0xA0, 0x20, 10] @ py ''A1''))) \<and>
   isl (load_seller_ids (Content [0x20, 10]))"
proof -
  let ?t = "py '' A1 '' @ [10, 10] @ py ''B2'' @ [13, 10, 0xA0, 0x20, 10] @ py ''A1''"
  let ?ids = "[py ''A1'', py ''B2'', py ''A1'']"
  have l: "load_seller_ids (Content ?t) = Inr ?ids"
    by code_simp
  have c: "load_seller_ids (Content ?t) = Inr ?ids \<longleftrightarrow>
        ?ids = map strip (filter (\<lambda>l. \<not> blank l) (py_lines ?t)) \<and> ?ids \<noteq> []"
    by (rule load_seller_ids_spec[THEN conjunct2, THEN conjunct1, THEN spec, THEN spec])
  have m: "?ids = map strip (filter (\<lambda>l. \<not> blank l) (py_lines ?t))"
    using c[THEN iffD1, OF l] by (rule conjunct1)
  have p: "py_lines [0x20, 10] = [[0x20, 10]]" by code_simp
  have q: "blank [0x20, 10]" by code_simp
  have b: "\<exists>t. Content [0x20, 10] = Content t \<and> (\<forall>l\<in>set (py_lines t). blank l)"
    by (rule exI[of _ "[0x20, 10]"]) (simp only: p q list.set ball_simps)
  have e: "isl (load_seller_ids (Content [0x20, 10])) \<longleftrightarrow>
        Content [0x20, 10] = Missing \<or>
        (\<exists>t. Content [0x20, 10] = Content t \<and> (\<forall>l\<in>set (py_lines t). blank l))"
    by (rule load_seller_ids_spec[THEN conjunct2, THEN conjunct2, THEN conjunct2, THEN conjunct1, THEN spec])
  have i: "isl (load_seller_ids (Content [0x20, 10]))"
    using e[THEN iffD2, OF disjI2, OF b] .
  from l m i show ?thesis by (intro conjI)
qed

section \<open>Claims about the direct fields and the extra mapping\<close>

lemma first_country_skip:
  assumes "\<forall>k'\<in>set pre. \<forall>v'. map_of d k' = Some (VStr v') \<longrightarrow> strip v' = []"
  shows "first_country U (pre @ ks) d = first_country U ks d"
  using assms by (induction pre) (auto split: option.splits pyval.splits)

lemma first_country_hit:
  assumes "map_of d k = Some (VStr v)" and "strip v \<noteq> []"
  shows "first_country U (k # post) d = Some (upper U (strip v))"
  using assms by simp

lemma first_country_split:
  assumes "ks = pre @ k # post"
    and "map_of d k = Some (VStr v)" and "strip v \<noteq> []"
    and "\<forall>k'\<in>set pre. \<forall>v'. map_of d k' = Some (VStr v') \<longrightarrow> strip v' = []"
  shows "first_country U ks d = Some (upper U (strip v))"
  using assms first_country_skip[of pre d U "k # post"] first_country_hit[of d k v U post] by simp

text \<open>
  C5, as the script has it. The direct fields are tried in the order
  \<open>establishedCountry\<close>, \<open>countryCode\<close>, \<open>country\<close>. The first of them holding a string
  that is non-empty after trimming decides: inference returns that string trimmed and
  upper-cased, whatever its length. A field holding a string of whitespace only is passed
  over like an absent one. The record with \<open>country\<close> = \<open>"gb"\<close> gives the upper-cased
  \<open>"gb"\<close>.
\<close>

theorem direct_fields_first:
  assumes "direct_keys = pre @ k # post"
    and "map_of s k = Some (VStr v)" and "strip v \<noteq> []"
    and "\<forall>k'\<in>set pre. \<forall>v'. map_of s k' = Some (VStr v') \<longrightarrow> strip v' = []"
  shows "extract_country_from_seller U s = Some (upper U (strip v)) \<and>
         direct_keys = [py ''establishedCountry'', py ''countryCode'', py ''country''] \<and>
         extract_country_from_seller U [(py ''country'', VStr (py ''gb''))] = Some (upper U (py ''gb''))"
proof -
  have "first_country U direct_keys s = Some (upper U (strip v))"
    using assms by (rule first_country_split)
  then have a: "extract_country_from_seller U s = Some (upper U (strip v))"
    by (simp add: extract_country_from_seller_def)
  have k: "direct_keys = [py ''establishedCountry'', py ''countryCode''] @ py ''country'' # []"
    by (simp add: direct_keys_def)
  have n1: "py ''establishedCountry'' \<noteq> py ''country''"
    by code_simp
  have n2: "py ''countryCode'' \<noteq> py ''country''"
    by code_simp
  have st: "strip (py ''gb'') = py ''gb''" by code_simp
  have ne: "strip (py ''gb'') \<noteq> []" unfolding st by code_simp
  have "first_country U direct_keys [(py ''country'', VStr (py ''gb''))] = Some (upper U (strip (py ''gb'')))"
    by (rule first_country_split[OF k _ ne]) (use n1 n2 in auto)
  then have b: "extract_country_from_seller U [(py ''country'', VStr (py ''gb''))] = Some (upper U (py ''gb''))"
    by (simp add: extract_country_from_seller_def st)
  from a b show ?thesis by (simp add: direct_keys_def)
qed

theorem direct_fields_first_witness:
  "extract_country_from_seller latin1
     [(py ''country'', VStr (py ''fr'')), (py ''countryCode'', VStr (py '' United Kingdom '')),
      (py ''establishedCountry'', VStr [0xA0, 0x20])]
     = Some (py ''UNITED KINGDOM'') \<and>
   extract_country_from_seller latin1 [(py ''country'', VStr (py ''gb''))] = Some (py ''GB'')"
proof -
  let ?s = "[(py ''country'', VStr (py ''fr'')), (py ''countryCode'', VStr (py '' United Kingdom '')),
      (py ''establishedCountry'', VStr [0xA0, 0x20])]"
  have a: "direct_keys = [py ''establishedCountry''] @ py ''countryCode'' # [py ''country'']"
    by (simp add: direct_keys_def)
  have b: "map_of ?s (py ''countryCode'') = Some (VStr (py '' United Kingdom ''))" by code_simp
  have c: "strip (py '' United Kingdom '') = py ''United Kingdom''" by code_simp
  have c': "strip (py '' United Kingdom '') \<noteq> []" unfolding c by code_simp
  have e: "map_of ?s (py ''establishedCountry'') = Some (VStr [0xA0, 0x20])" by code_simp
  have e': "strip [0xA0, 0x20] = []" by code_simp
  have d: "\<forall>k'\<in>set [py ''establishedCountry'']. \<forall>v'. map_of ?s k' = Some (VStr v') \<longrightarrow> strip v' = []"
    using e e' by simp
  have u: "upper latin1 (py ''United Kingdom'') = py ''UNITED KINGDOM''" by code_simp
  have g: "upper latin1 (py ''gb'') = py ''GB''" by code_simp
  from direct_fields_first[OF a b c' d, of latin1] show ?thesis by (simp add: c u g)
qed

text \<open>
  C5 as stated fails: with \<open>establishedCountry\<close> = \<open>" "\<close>, a non-empty string, and
  \<open>countryCode\<close> = \<open>"gb"\<close>, the claim has the trimmed first field, the empty string,
  returned; the script returns \<open>"GB"\<close>.
\<close>

theorem direct_fields_counterexample:
  "extract_country_from_seller latin1
     [(py ''establishedCountry'', VStr (py '' '')), (py ''countryCode'', VStr (py ''gb''))] =
     Some (py ''GB'') \<and>
   claimed_first_country latin1 direct_keys
     [(py ''establishedCountry'', VStr (py '' '')), (py ''countryCode'', VStr (py ''gb''))] =
     Some []"
  by code_simp

text \<open>
  C6, as the script has it. When the direct fields and the address fields determine
  nothing and \<open>extra\<close> is a mapping, its keys are tried in the order \<open>country\<close>,
  \<open>countryCode\<close>, \<open>establishedCountry\<close>, and the first holding a string that is non-empty
  after trimming is returned trimmed and upper-cased. So when \<open>country\<close> and
  \<open>countryCode\<close> both hold such strings, the one under \<open>country\<close> wins.
\<close>

theorem extra_fields_order:
  assumes "first_country U direct_keys s = None"
    and "scan_addresses U candidate_keys s = None"
    and "map_of s (py ''extra'') = Some (VDict extra)"
    and "extra_keys = pre @ k # post"
    and "map_of extra k = Some (VStr v)" and "strip v \<noteq> []"
    and "\<forall>k'\<in>set pre. \<forall>v'. map_of extra k' = Some (VStr v') \<longrightarrow> strip v' = []"
  shows "extract_country_from_seller U s = Some (upper U (strip v)) \<and>
         extra_keys = [py ''country'', py ''countryCode'', py ''establishedCountry'']"
proof -
  have "first_country U extra_keys extra = Some (upper U (strip v))"
    using assms(4-7) by (rule first_country_split)
  with assms(1-3) show ?thesis
    by (simp add: extract_country_from_seller_def extra_keys_def)
qed

theorem extra_fields_order_witness:
  "extract_country_from_seller latin1
     [(py ''address'', VStr ([0x78, 0x2C, 0xA0] @ py ''fra'')),
      (py ''extra'', VDict [(py ''countryCode'', VStr (py ''de'')), (py ''country'', VStr (py ''gb''))])] =
     Some (py ''GB'')"
proof -
  let ?e = "[(py ''countryCode'', VStr (py ''de'')), (py ''country'', VStr (py ''gb''))]"
  let ?s = "[(py ''address'', VStr ([0x78, 0x2C, 0xA0] @ py ''fra'')), (py ''extra'', VDict ?e)]"
  have s1: "first_country latin1 direct_keys ?s = None" by code_simp
  have s2: "scan_addresses latin1 candidate_keys ?s = None" by code_simp
  have x: "map_of ?s (py ''extra'') = Some (VDict ?e)" by code_simp
  have a: "extra_keys = [] @ py ''country'' # [py ''countryCode'', py ''establishedCountry'']"
    by (simp add: extra_keys_def)
  have b: "map_of ?e (py ''country'') = Some (VStr (py ''gb''))" by code_simp
  have c: "strip (py ''gb'') = py ''gb''" by code_simp
  have c': "strip (py ''gb'') \<noteq> []" unfolding c by code_simp
  have d: "\<forall>k'\<in>set []. \<forall>v'. map_of ?e k' = Some (VStr v') \<longrightarrow> strip v' = []"
    by simp
  have u: "upper latin1 (py ''gb'') = py ''GB''" by code_simp
  from extra_fields_order[OF s1 s2 x a b c' d] show ?thesis by (simp add: c u)
qed

text \<open>
  C6 as stated fails: with \<open>extra\<close> holding \<open>country\<close> = \<open>" "\<close> and
  \<open>countryCode\<close> = \<open>"gb"\<close>, the value under \<open>country\<close> does not win: the script returns
  \<open>"GB"\<close>.
\<close>

theorem extra_fields_counterexample:
  "extract_country_from_seller latin1
     [(py ''extra'', VDict [(py ''country'', VStr (py '' '')), (py ''countryCode'', VStr (py ''gb''))])] =
     Some (py ''GB'') \<and>
   claimed_first_country latin1 extra_keys
     [(py ''country'', VStr (py '' '')), (py ''countryCode'', VStr (py ''gb''))] = Some []"
  by code_simp

section \<open>Claims about the normal form of the result\<close>

lemma upper_append: "upper U (a @ b) = upper U a @ upper U b"
  by (simp add: upper_def)

lemma upper_idem:
  assumes "\<forall>c. upper U (to_upper U c) = to_upper U c"
  shows "upper U (upper U s) = upper U s"
proof (induction s)
  case Nil
  then show ?case by (simp add: upper_def)
next
  case (Cons c s)
  have "upper U (c # s) = to_upper U c @ upper U s" by (simp add: upper_def)
  then show ?case using assms Cons by (simp add: upper_append)
qed

lemma last_concat_map:
  assumes "s \<noteq> []" and "f (last s) \<noteq> []"
  shows "last (concat (map f s)) = last (f (last s))"
proof -
  from assms(1) obtain ys l where s: "s = ys @ [l]" by (cases s rule: rev_cases) auto
  with assms(2) show ?thesis by simp
qed

lemma upper_keeps_edges:
  assumes e: "\<forall>c. \<not> is_space c \<longrightarrow>
                to_upper U c \<noteq> [] \<and> \<not> is_space (hd (to_upper U c)) \<and> \<not> is_space (last (to_upper U c))"
    and s: "s = [] \<or> (\<not> is_space (hd s) \<and> \<not> is_space (last s))"
  shows "strip (upper U s) = upper U s"
proof (cases s)
  case Nil
  then show ?thesis by (simp add: upper_def strip_def lstrip_def rstrip_def)
next
  case (Cons c cs)
  with s have h: "\<not> is_space c" and l: "\<not> is_space (last s)" by auto
  from e h have c: "to_upper U c \<noteq> []" "\<not> is_space (hd (to_upper U c))" by auto
  from e l have d: "to_upper U (last s) \<noteq> []" "\<not> is_space (last (to_upper U (last s)))" by auto
  have hd: "hd (upper U s) = hd (to_upper U c)"
    using Cons c(1) by (simp add: upper_def)
  have la: "last (upper U s) = last (to_upper U (last s))"
    unfolding upper_def using Cons d(1) by (intro last_concat_map) simp_all
  show ?thesis
    by (rule strip_id) (simp add: hd la c d)
qed

lemma normal_upper_strip:
  assumes "\<forall>c. upper U (to_upper U c) = to_upper U c"
    and "\<forall>c. \<not> is_space c \<longrightarrow>
                to_upper U c \<noteq> [] \<and> \<not> is_space (hd (to_upper U c)) \<and> \<not> is_space (last (to_upper U c))"
  shows "strip (upper U (strip v)) = upper U (strip v) \<and>
         upper U (upper U (strip v)) = upper U (strip v)"
proof -
  have "strip v = [] \<or> (\<not> is_space (hd (strip v)) \<and> \<not> is_space (last (strip v)))"
    using strip_not_space[of v] by blast
  with assms(2) have "strip (upper U (strip v)) = upper U (strip v)"
    by (rule upper_keeps_edges)
  with upper_idem[OF assms(1)] show ?thesis by simp
qed

lemma strip_GB: "strip (py ''GB'') = py ''GB''"
  by code_simp

lemma first_country_normal:
  assumes "\<forall>c. upper U (to_upper U c) = to_upper U c"
    and "\<forall>c. \<not> is_space c \<longrightarrow>
                to_upper U c \<noteq> [] \<and> \<not> is_space (hd (to_upper U c)) \<and> \<not> is_space (last (to_upper U c))"
    and "first_country U ks d = Some c"
  shows "strip c = c \<and> upper U c = c"
  using assms(3)
  by (induction ks) (auto simp: normal_upper_strip[OF assms(1,2)] split: option.splits pyval.splits if_splits)

lemma address_country_normal:
  assumes "\<forall>c. upper U (to_upper U c) = to_upper U c"
    and "\<forall>c. \<not> is_space c \<longrightarrow>
                to_upper U c \<noteq> [] \<and> \<not> is_space (hd (to_upper U c)) \<and> \<not> is_space (last (to_upper U c))"
    and "upper U (py ''GB'') = py ''GB''"
    and "address_country U v = Some c"
  shows "strip c = c \<and> upper U c = c"
  using assms(4)
  by (auto simp: address_country_def Let_def normal_upper_strip[OF assms(1,2)] strip_GB assms(3)
           split: pyval.splits if_splits)

lemma scan_addresses_normal:
  assumes "\<forall>c. upper U (to_upper U c) = to_upper U c"
    and "\<forall>c. \<not> is_space c \<longrightarrow>
                to_upper U c \<noteq> [] \<and> \<not> is_space (hd (to_upper U c)) \<and> \<not> is_space (last (to_upper U c))"
    and "upper U (py ''GB'') = py ''GB''"
    and "scan_addresses U ks d = Some c"
  shows "strip c = c \<and> upper U c = c"
  using assms(4)
  by (induction ks) (auto dest: address_country_normal[OF assms(1,2,3)] split: option.splits)

text \<open>
  C10. Whenever inference determines a country, on whichever path, the result is
  normalized: trimming it or upper-casing it changes nothing, and it neither starts nor
  ends with whitespace. This takes three facts of the upper-case table, which Python's
  table has: upper-casing an upper-cased code point changes nothing; the upper case of a
  code point that is not whitespace neither starts nor ends with whitespace; and
  \<open>"GB"\<close> is its own upper case.
\<close>

theorem inferred_country_normalized:
  assumes "\<forall>c. upper U (to_upper U c) = to_upper U c"
    and "\<forall>c. \<not> is_space c \<longrightarrow>
                to_upper U c \<noteq> [] \<and> \<not> is_space (hd (to_upper U c)) \<and> \<not> is_space (last (to_upper U c))"
    and "upper U (py ''GB'') = py ''GB''"
    and "extract_country_from_seller U s = Some c"
  shows "strip c = c \<and> upper U c = c \<and>
         (c \<noteq> [] \<longrightarrow> \<not> is_space (hd c) \<and> \<not> is_space (last c))"
proof -
  have n: "strip c = c \<and> upper U c = c"
    using assms(4) first_country_normal[OF assms(1,2)] scan_addresses_normal[OF assms(1,2,3)]
    by (auto simp: extract_country_from_seller_def split: option.splits pyval.splits)
  then have "c \<noteq> [] \<longrightarrow> \<not> is_space (hd c) \<and> \<not> is_space (last c)"
    using strip_not_space[of c] by simp
  with n show ?thesis by simp
qed

lemma latin1_upper_idem: "\<forall>c. upper latin1 (to_upper latin1 c) = to_upper latin1 c"
  by (auto simp: latin1_def upper_def)

lemma latin1_upper_edges:
  "\<forall>c. \<not> is_space c \<longrightarrow>
     to_upper latin1 c \<noteq> [] \<and> \<not> is_space (hd (to_upper latin1 c)) \<and>
     \<not> is_space (last (to_upper latin1 c))"
  by (auto simp: latin1_def is_space_def)

theorem inferred_country_normalized_witness:
  "extract_country_from_seller latin1 [(py ''address'', VStr (py ''1 High St, london, gb ''))] =
     Some (py ''GB'') \<and>
   strip (py ''GB'') = py ''GB'' \<and> upper latin1 (py ''GB'') = py ''GB''"
proof -
  have g: "upper latin1 (py ''GB'') = py ''GB''"
    by code_simp
  have e: "extract_country_from_seller latin1 [(py ''address'', VStr (py ''1 High St, london, gb ''))] =
             Some (py ''GB'')"
    by code_simp
  from inferred_country_normalized[OF latin1_upper_idem latin1_upper_edges g e]
  show ?thesis using e by simp
qed

end
